theory Spec2Isabelle
  imports Complex_Main "HOL-Library.Product_Lexorder" "HOL-Library.Log_Nat"
begin

section \<open>Python floats\<close>

text \<open>
  The scripts compute with Python floats, which are IEEE 754 doubles: numbers
  \<open>m * 2 ^ e\<close> with \<open>\<bar>m\<bar> \<le> 2 ^ 53\<close> and \<open>e \<ge> - 1074\<close>. A float is kept here as the real
  number it stands for, and every sum and difference is rounded to the nearest double,
  a tie going to the even mantissa, as the hardware does. Comparisons are exact. A
  decimal literal of the source that is no double, such as \<open>0.3\<close>, is the double nearest
  to it, \<open>fl 0.3\<close>. Overflow to infinity is not modelled: times are far below
  \<open>2 ^ 1024\<close>.

  \<open>round_even\<close> rounds to the nearest integer, a tie to the even one. \<open>binade x\<close> is,
  for \<open>x > 0\<close>, the \<open>k\<close> with \<open>2 ^ (k - 1) \<le> x < 2 ^ k\<close>; the doubles of that range are
  the multiples of \<open>2 ^ (k - 53)\<close>, and below \<open>2 ^ - 1022\<close> the multiples of
  \<open>2 ^ - 1074\<close>.
\<close>

definition round_even :: "real \<Rightarrow> int" where
  "round_even x =
     (let n = \<lfloor>x\<rfloor>; r = x - of_int n
      in if r < 1 / 2 then n else if r > 1 / 2 then n + 1 else if even n then n else n + 1)"

definition pow2 :: "int \<Rightarrow> real" where
  "pow2 e = (if 0 \<le> e then 2 ^ nat e else 1 / 2 ^ nat (- e))"

definition binade :: "real \<Rightarrow> int" where
  "binade x =
     (if 1 \<le> x then bitlen \<lfloor>x\<rfloor>
      else let j = bitlen \<lfloor>1 / x\<rfloor>
           in if x * 2 ^ nat (j - 1) = 1 then 2 - j else 1 - j)"

definition fl :: "real \<Rightarrow> real" where
  "fl x =
     (if x = 0 then 0
      else let e = max (binade \<bar>x\<bar> - 53) (- 1074)
           in sgn x * (of_int (round_even (\<bar>x\<bar> / pow2 e)) * pow2 e))"

text \<open>The float operations \<open>a + b\<close> and \<open>a - b\<close> of the source.\<close>

definition fadd :: "real \<Rightarrow> real \<Rightarrow> real" where
  "fadd a b = fl (a + b)"

definition fsub :: "real \<Rightarrow> real \<Rightarrow> real" where
  "fsub a b = fl (a - b)"

section \<open>Times, intervals, kinds and colours\<close>

text \<open>
  A time is a float, in seconds. The XML text that the scripts splice into the sequence
  file is not modelled; an effect is recorded by the values that the scripts put into
  that text.
\<close>

type_synonym interval = "real \<times> real"

datatype kind = Pulse | Twinkle | Butterfly | Spiral | Wipe

text \<open>The palette \<open>COLORS\<close> of the three scripts, as XYZ triples.\<close>

definition COLORS :: "(real \<times> real \<times> real) list" where
  "COLORS =
     [(41.24564394, 21.26729007, 1.93339082),
      (18.05, 7.22, 95.05),
      (35.76, 71.52, 11.92),
      (77.0, 92.78, 13.85),
      (13.80, 6.16, 43.59),
      (59.01, 56.80, 7.85),
      (95.05, 100.0, 108.88),
      (42.35, 55.82, 103.15)]"

text \<open>
  \<open>random.choice(xs)\<close> returns some element of a non-empty list. The draw is a number
  supplied from outside; every call site passes a non-empty literal list.
\<close>

definition choice :: "'a list \<Rightarrow> nat \<Rightarrow> 'a" where
  "choice xs r = xs ! (r mod length xs)"

section \<open>The gap test and the end-beat search\<close>

text \<open>
  \<open>is_gap(time_point, existing_effects, threshold)\<close>: the loop returns False at the
  first interval whose widening by the threshold holds the point.
\<close>

fun is_gap :: "real \<Rightarrow> interval list \<Rightarrow> real \<Rightarrow> bool" where
  "is_gap time_point [] threshold = True"
| "is_gap time_point ((start, stop) # rest) threshold =
     (if fsub start threshold \<le> time_point \<and> time_point \<le> fadd stop threshold then False
      else is_gap time_point rest threshold)"

text \<open>
  The inner loop of \<open>find_end_beat\<close>: \<open>overlap\<close> becomes True at the first interval
  that holds the end point, boundaries included and with no margin.
\<close>

fun overlap :: "real \<Rightarrow> interval list \<Rightarrow> bool" where
  "overlap end_time [] = False"
| "overlap end_time ((ex_start, ex_end) # rest) =
     (if ex_start \<le> end_time \<and> end_time \<le> ex_end then True
      else overlap end_time rest)"

text \<open>
  The body of \<open>for i in range(start_beat_idx + 1, min(start_beat_idx + 20, len(beats)))\<close>,
  by recursion over the indices still to visit: \<open>continue\<close> goes on with the rest,
  \<open>break\<close> leaves the loop for the final \<open>return None, None, None\<close>.
\<close>

fun find_end_scan ::
  "real list \<Rightarrow> interval list \<Rightarrow> real \<Rightarrow> real \<Rightarrow> real \<Rightarrow> nat list
     \<Rightarrow> (nat \<times> real \<times> real) option" where
  "find_end_scan beats existing_effects start_time min_dur max_dur [] = None"
| "find_end_scan beats existing_effects start_time min_dur max_dur (i # rest) =
     (let end_time = beats ! i;
          duration = fsub end_time start_time
      in if duration < min_dur
         then find_end_scan beats existing_effects start_time min_dur max_dur rest
         else if duration > max_dur then None
         else if overlap end_time existing_effects
         then find_end_scan beats existing_effects start_time min_dur max_dur rest
         else Some (i, end_time, duration))"

text \<open>\<open>find_end_beat\<close> of \<open>add_beatnet_effects.py\<close>.\<close>

definition find_end_beat ::
  "nat \<Rightarrow> real list \<Rightarrow> interval list \<Rightarrow> real \<Rightarrow> real \<Rightarrow> (nat \<times> real \<times> real) option" where
  "find_end_beat start_beat_idx beats existing_effects min_duration max_duration =
     find_end_scan beats existing_effects (beats ! start_beat_idx) min_duration max_duration
       [start_beat_idx + 1 ..< min (start_beat_idx + 20) (length beats)]"

text \<open>
  \<open>find_end_beat\<close> of \<open>add_waveform_effects.py\<close>: the duration range is chosen by the
  kind of the start beat, then the same loop runs. Its parameter \<open>beat_data\<close> is never
  read and is left out.
\<close>

definition find_end_beat_wf ::
  "nat \<Rightarrow> real list \<Rightarrow> interval list \<Rightarrow> bool \<Rightarrow> bool \<Rightarrow> real \<Rightarrow> real
     \<Rightarrow> (nat \<times> real \<times> real) option" where
  "find_end_beat_wf start_beat_idx beats existing_effects is_downbeat is_strong
       min_duration max_duration =
     (let (min_dur, max_dur) =
            (if is_downbeat then (1.0, min max_duration 8.0)
             else if is_strong then (fl 0.7, min max_duration 4.0)
             else (min_duration, min max_duration 2.0))
      in find_end_scan beats existing_effects (beats ! start_beat_idx) min_dur max_dur
           [start_beat_idx + 1 ..< min (start_beat_idx + 20) (length beats)])"

text \<open>
  \<open>find_gap_duration\<close> of \<open>add_beat_synced_effects.py\<close>. The loop keeps \<open>end_time\<close>
  and lowers it to \<open>start - 0.1\<close> at every interval that starts after the point and
  before the current \<open>end_time\<close>.
\<close>

fun find_gap_scan :: "real \<Rightarrow> interval list \<Rightarrow> real \<Rightarrow> real" where
  "find_gap_scan time_point [] end_time = end_time"
| "find_gap_scan time_point ((start, stop) # rest) end_time =
     find_gap_scan time_point rest
       (if start > time_point \<and> start < end_time then fsub start (fl 0.1) else end_time)"

definition find_gap_duration :: "real \<Rightarrow> interval list \<Rightarrow> real \<Rightarrow> real" where
  "find_gap_duration time_point existing_effects max_duration =
     min (fsub (find_gap_scan time_point existing_effects (fadd time_point max_duration))
            time_point)
       max_duration"

section \<open>Decoding durations and loading the existing effects\<close>

text \<open>
  \<open>parse_duration\<close> matches \<open>PT(?:(\d+)M)?(\d+(?:\.\d+)?)S\<close> at the start of the
  string and returns 0 when there is no match. Strings are byte strings here, so a digit
  is an ASCII digit. A greedy run of digits can only be followed by the letter the
  pattern asks for when it is the whole run, so the match is found without search:
  \<open>match_secs\<close> is the second group with the closing \<open>S\<close>, \<open>match_duration\<close> tries the
  optional minutes first and the bare seconds next, and returns the two groups.
\<close>

definition is_digit :: "char \<Rightarrow> bool" where
  "is_digit c = (c \<in> set ''0123456789'')"

definition digit_val :: "char \<Rightarrow> nat" where
  "digit_val c = of_char c - 48"

definition int_of_digits :: "string \<Rightarrow> nat" where
  "int_of_digits ds = foldl (\<lambda>a c. 10 * a + digit_val c) 0 ds"

definition match_secs :: "string \<Rightarrow> (string \<times> string option) option" where
  "match_secs t =
     (let whole = takeWhile is_digit t;
          r2 = dropWhile is_digit t
      in if whole = [] then None
         else
           let decimals = takeWhile is_digit (drop 1 r2);
               r3 = dropWhile is_digit (drop 1 r2)
           in if take 1 r2 = ''.'' \<and> decimals \<noteq> [] \<and> take 1 r3 = ''S'' then Some (whole, Some decimals)
              else if take 1 r2 = ''S'' then Some (whole, None)
              else None)"

definition match_duration :: "string \<Rightarrow> (string option \<times> string \<times> string option) option" where
  "match_duration dur_str =
     (if take 2 dur_str \<noteq> ''PT'' then None
      else
        let rest = drop 2 dur_str;
            mins = takeWhile is_digit rest;
            r1 = dropWhile is_digit rest
        in case (if mins \<noteq> [] \<and> take 1 r1 = ''M'' then match_secs (drop 1 r1) else None) of
             Some g2 \<Rightarrow> Some (Some mins, g2)
           | None \<Rightarrow> (case match_secs rest of Some g2 \<Rightarrow> Some (None, g2) | None \<Rightarrow> None))"

text \<open>
  \<open>float\<close> of the second group: the double nearest to the decimal number that the
  digits, and the digits after the point, spell.
\<close>

definition float_of :: "string \<times> string option \<Rightarrow> real" where
  "float_of g =
     (case g of
        (whole, None) \<Rightarrow> fl (real (int_of_digits whole))
      | (whole, Some decimals) \<Rightarrow>
          fl (real (int_of_digits whole) +
              real (int_of_digits decimals) / 10 ^ length decimals))"

text \<open>
  \<open>mins * 60\<close> is a product of integers, and \<open>mins * 60 + secs\<close> turns it into a float
  and adds the floats.
\<close>

definition parse_duration :: "string \<Rightarrow> real" where
  "parse_duration dur_str =
     (case match_duration dur_str of
        Some (g1, g2) \<Rightarrow>
          (let mins = (case g1 of Some ds \<Rightarrow> int_of_digits ds | None \<Rightarrow> 0);
               secs = float_of g2
           in fadd (fl (real (mins * 60))) secs)
      | None \<Rightarrow> 0)"

text \<open>
  The existing effects: one pair of strings per \<open>StartTime\<close>/\<open>TimeSpan\<close> match in the
  sequence file, decoded, turned into (start, end) and sorted.
\<close>

definition load_existing :: "(string \<times> string) list \<Rightarrow> interval list" where
  "load_existing matches =
     sort (map (\<lambda>(start, dur).
                  let start_sec = parse_duration start;
                      dur_sec = parse_duration dur;
                      end_sec = fadd start_sec dur_sec
                  in (start_sec, end_sec)) matches)"

section \<open>Effects\<close>

text \<open>
  What every script records of a new effect: its start, its duration (the
  \<open>TimeSpan\<close>), its type and its colour.
\<close>

record effect =
  start_time :: real
  duration :: real
  effect_type :: kind
  color :: "real \<times> real \<times> real"

text \<open>The effect nodes of the BeatNet and the beat-synced script carry a fresh UUID.\<close>

record node = effect +
  effect_id :: nat

text \<open>The entries of \<open>effects_to_add\<close> of the waveform script.\<close>

record planned = effect +
  end_time :: real
  is_downbeat :: bool
  is_strong :: bool

section \<open>The scheduling loop of \<open>add_beatnet_effects.py\<close>\<close>

text \<open>
  The variables of the loop. \<open>uuid4 n\<close> is the UUID of the \<open>n\<close>-th new effect and
  \<open>rnd n\<close> the draw of its \<open>random.choice(effect_choices)\<close>: the script seeds neither,
  so both come from outside. The further draws (butterfly type, wipe direction, spiral
  colours) only reach the XML text.
\<close>

record bn_state =
  bn_i :: nat
  bn_existing_effects :: "interval list"
  bn_new_effect_nodes :: "node list"
  bn_effects_added :: nat
  bn_color_idx :: nat

definition bn_step ::
  "real list \<Rightarrow> real set \<Rightarrow> (nat \<Rightarrow> nat) \<Rightarrow> (nat \<Rightarrow> nat) \<Rightarrow> bn_state \<Rightarrow> bn_state" where
  "bn_step beats downbeats uuid4 rnd st =
     (let i = bn_i st;
          beat_time = beats ! i
      in if \<not> is_gap beat_time (bn_existing_effects st) (fl 0.3) then st\<lparr>bn_i := i + 1\<rparr>
         else
           let (max_dur, min_dur, effect_choices) =
                 (if beat_time \<in> downbeats then (10.0, 2.0, [Spiral, Butterfly, Twinkle, Wipe])
                  else (2.0, 0.5, [Pulse]))
           in case find_end_beat i beats (bn_existing_effects st) min_dur max_dur of
                None \<Rightarrow> st\<lparr>bn_i := i + 1\<rparr>
              | Some (end_idx, end_time', duration') \<Rightarrow>
                  st\<lparr>bn_i := end_idx + 1,
                     bn_existing_effects := sort (bn_existing_effects st @ [(beat_time, end_time')]),
                     bn_new_effect_nodes := bn_new_effect_nodes st @
                       [\<lparr>start_time = beat_time, duration = duration',
                         effect_type = choice effect_choices (rnd (bn_effects_added st)),
                         color = COLORS ! (bn_color_idx st mod length COLORS),
                         effect_id = uuid4 (bn_effects_added st)\<rparr>],
                     bn_effects_added := bn_effects_added st + 1,
                     bn_color_idx := bn_color_idx st + 1\<rparr>)"

lemma find_end_scan_mem:
  "find_end_scan beats ex t0 mn mx idxs = Some (j, t, d) \<Longrightarrow> j \<in> set idxs"
  by (induction idxs) (auto simp: Let_def split: if_splits)

lemma find_end_beat_range:
  assumes "find_end_beat s beats ex mn mx = Some (j, t, d)"
  shows "s < j" and "j < s + 20" and "j < length beats"
  using find_end_scan_mem [OF assms [unfolded find_end_beat_def]] by auto

lemma bn_step_advances: "bn_i st < bn_i (bn_step beats downbeats uuid4 rnd st)"
  by (auto simp: bn_step_def Let_def split: option.splits prod.splits
      dest: find_end_beat_range(1))

function bn_loop ::
  "real list \<Rightarrow> real set \<Rightarrow> (nat \<Rightarrow> nat) \<Rightarrow> (nat \<Rightarrow> nat) \<Rightarrow> bn_state \<Rightarrow> bn_state" where
  "bn_loop beats downbeats uuid4 rnd st =
     (if bn_i st < length beats
      then bn_loop beats downbeats uuid4 rnd (bn_step beats downbeats uuid4 rnd st)
      else st)"
  by pat_completeness auto
termination
proof (relation "measure (\<lambda>(beats, downbeats, uuid4, rnd, st). length beats - bn_i st)")
  show "wf (measure (\<lambda>(beats, downbeats, uuid4, rnd, st). length beats - bn_i st))"
    by simp
next
  fix beats :: "real list" and downbeats uuid4 rnd and st :: bn_state
  assume "bn_i st < length beats"
  moreover have "bn_i st < bn_i (bn_step beats downbeats uuid4 rnd st)"
    by (rule bn_step_advances)
  ultimately show "((beats, downbeats, uuid4, rnd, bn_step beats downbeats uuid4 rnd st),
                    (beats, downbeats, uuid4, rnd, st))
           \<in> measure (\<lambda>(beats, downbeats, uuid4, rnd, st). length beats - bn_i st)"
    by simp
qed

declare bn_loop.simps [simp del]

text \<open>
  The whole pass: the loop from \<open>i = 0\<close> with no new effect yet, over the existing
  effects as loaded; the result is the list of new effect nodes.
\<close>

definition bn_init :: "interval list \<Rightarrow> bn_state" where
  "bn_init existing_effects =
     \<lparr>bn_i = 0, bn_existing_effects = existing_effects, bn_new_effect_nodes = [],
      bn_effects_added = 0, bn_color_idx = 0\<rparr>"

definition schedule_beatnet ::
  "real list \<Rightarrow> real set \<Rightarrow> interval list \<Rightarrow> (nat \<Rightarrow> nat) \<Rightarrow> (nat \<Rightarrow> nat) \<Rightarrow> node list" where
  "schedule_beatnet beats downbeats existing_effects uuid4 rnd =
     bn_new_effect_nodes (bn_loop beats downbeats uuid4 rnd (bn_init existing_effects))"

section \<open>The scheduling loop of \<open>add_waveform_effects.py\<close>\<close>

text \<open>
  The loop plans the effects; \<open>existing_effects\<close> is not extended by it. \<open>rnd n\<close> is
  the \<open>n\<close>-th draw of the pass: one for the effect type unless the beat is a regular
  one, and one for the colour.
\<close>

record wf_state =
  wf_beat_idx :: nat
  wf_effects_to_add :: "planned list"
  wf_draws :: nat

definition wf_step ::
  "real list \<Rightarrow> real set \<Rightarrow> real set \<Rightarrow> interval list \<Rightarrow> (nat \<Rightarrow> nat) \<Rightarrow> wf_state
     \<Rightarrow> wf_state" where
  "wf_step beats downbeats strong_beats existing_effects rnd st =
     (let beat_idx = wf_beat_idx st;
          beat_time = beats ! beat_idx
      in if is_gap beat_time existing_effects (fl 0.3)
         then
           let downbeat = beat_time \<in> downbeats;
               strong = beat_time \<in> strong_beats
           in case find_end_beat_wf beat_idx beats existing_effects downbeat strong 0.5 10.0 of
                None \<Rightarrow> st\<lparr>wf_beat_idx := beat_idx + 1\<rparr>
              | Some (end_idx, end_time', duration') \<Rightarrow>
                  let (effect_type', n) =
                        (if downbeat \<and> duration' \<ge> 4.0
                         then (choice [Spiral, Butterfly] (rnd (wf_draws st)), wf_draws st + 1)
                         else if downbeat \<or> (strong \<and> duration' \<ge> 2.0)
                         then (choice [Wipe, Twinkle, Butterfly] (rnd (wf_draws st)),
                               wf_draws st + 1)
                         else if strong
                         then (choice [Pulse, Pulse, Twinkle] (rnd (wf_draws st)),
                               wf_draws st + 1)
                         else (Pulse, wf_draws st))
                  in st\<lparr>wf_beat_idx := end_idx + 1,
                        wf_effects_to_add := wf_effects_to_add st @
                          [\<lparr>start_time = beat_time, duration = duration',
                            effect_type = effect_type', color = choice COLORS (rnd n),
                            end_time = end_time', is_downbeat = downbeat,
                            is_strong = strong\<rparr>],
                        wf_draws := n + 1\<rparr>
         else st\<lparr>wf_beat_idx := beat_idx + 1\<rparr>)"

lemma find_end_beat_wf_range:
  assumes "find_end_beat_wf s beats ex db sg mn mx = Some (j, t, d)"
  shows "s < j" and "j < s + 20" and "j < length beats"
  using assms
  by (auto simp: find_end_beat_wf_def Let_def split: if_splits dest!: find_end_scan_mem)

lemma wf_step_advances:
  "wf_beat_idx st < wf_beat_idx (wf_step beats downbeats strong_beats ex rnd st)"
  by (auto simp: wf_step_def Let_def split: option.splits prod.splits
      dest: find_end_beat_wf_range(1))

function wf_loop ::
  "real list \<Rightarrow> real set \<Rightarrow> real set \<Rightarrow> interval list \<Rightarrow> (nat \<Rightarrow> nat) \<Rightarrow> wf_state
     \<Rightarrow> wf_state" where
  "wf_loop beats downbeats strong_beats existing_effects rnd st =
     (if wf_beat_idx st < length beats
      then wf_loop beats downbeats strong_beats existing_effects rnd
             (wf_step beats downbeats strong_beats existing_effects rnd st)
      else st)"
  by pat_completeness auto
termination
proof (relation "measure (\<lambda>(beats, downbeats, strong_beats, ex, rnd, st).
                           length beats - wf_beat_idx st)")
  show "wf (measure (\<lambda>(beats, downbeats, strong_beats, ex, rnd, st).
                       length beats - wf_beat_idx st))"
    by simp
next
  fix beats :: "real list" and downbeats strong_beats ex rnd and st :: wf_state
  assume "wf_beat_idx st < length beats"
  moreover have "wf_beat_idx st < wf_beat_idx (wf_step beats downbeats strong_beats ex rnd st)"
    by (rule wf_step_advances)
  ultimately show
    "((beats, downbeats, strong_beats, ex, rnd, wf_step beats downbeats strong_beats ex rnd st),
      (beats, downbeats, strong_beats, ex, rnd, st))
       \<in> measure (\<lambda>(beats, downbeats, strong_beats, ex, rnd, st).
                     length beats - wf_beat_idx st)"
    by simp
qed

declare wf_loop.simps [simp del]

definition wf_init :: wf_state where
  "wf_init = \<lparr>wf_beat_idx = 0, wf_effects_to_add = [], wf_draws = 0\<rparr>"

definition schedule_waveform ::
  "real list \<Rightarrow> real set \<Rightarrow> real set \<Rightarrow> interval list \<Rightarrow> (nat \<Rightarrow> nat) \<Rightarrow> planned list" where
  "schedule_waveform beats downbeats strong_beats existing_effects rnd =
     wf_effects_to_add (wf_loop beats downbeats strong_beats existing_effects rnd wf_init)"

section \<open>The scheduling loop of \<open>add_beat_synced_effects.py\<close>\<close>

text \<open>
  The free-running variant: the beats in gaps are collected first, and an effect lasts as
  long as the gap allows, up to a cap. \<open>fr_skip\<close> is the closing
  \<open>while i < len(beats_in_gaps) and beats_in_gaps[i] < beat_time + duration\<close>.
  The count \<open>beats_in_this_gap\<close> is never read and is left out. \<open>rnd n\<close> is the \<open>n\<close>-th
  draw of an effect type; a pulse takes none.
\<close>

function fr_skip :: "real list \<Rightarrow> real \<Rightarrow> nat \<Rightarrow> nat" where
  "fr_skip beats_in_gaps limit i =
     (if i < length beats_in_gaps \<and> beats_in_gaps ! i < limit
      then fr_skip beats_in_gaps limit (i + 1)
      else i)"
  by pat_completeness auto
termination
  by (relation "measure (\<lambda>(beats_in_gaps, limit, i). length beats_in_gaps - i)") auto

declare fr_skip.simps [simp del]

record fr_state =
  fr_i :: nat
  fr_new_effect_nodes :: "node list"
  fr_effects_added :: nat
  fr_color_idx :: nat
  fr_draws :: nat

definition fr_step ::
  "real list \<Rightarrow> interval list \<Rightarrow> (nat \<Rightarrow> nat) \<Rightarrow> (nat \<Rightarrow> nat) \<Rightarrow> fr_state \<Rightarrow> fr_state" where
  "fr_step beats_in_gaps existing_effects uuid4 rnd st =
     (let i = fr_i st;
          beat_time = beats_in_gaps ! i;
          gap_duration = find_gap_duration beat_time existing_effects 10.0;
          (effect_type', duration', n) =
            (if gap_duration \<ge> 5.0
             then (choice [Spiral, Butterfly, Twinkle] (rnd (fr_draws st)),
                   min gap_duration 8.0, fr_draws st + 1)
             else if gap_duration \<ge> 2.5
             then (choice [Wipe, Twinkle, Butterfly] (rnd (fr_draws st)),
                   min gap_duration 5.0, fr_draws st + 1)
             else (Pulse, min gap_duration 2.0, fr_draws st))
      in st\<lparr>fr_i := fr_skip beats_in_gaps (fadd beat_time duration') i,
            fr_new_effect_nodes := fr_new_effect_nodes st @
              [\<lparr>start_time = beat_time, duration = duration', effect_type = effect_type',
                color = COLORS ! (fr_color_idx st mod length COLORS),
                effect_id = uuid4 (fr_effects_added st)\<rparr>],
            fr_effects_added := fr_effects_added st + 1,
            fr_color_idx := fr_color_idx st + 1,
            fr_draws := n\<rparr>)"

text \<open>
  The outer \<open>while i < len(beats_in_gaps)\<close>. The cursor moves only past beats before
  the end of the new effect, so a duration that is not positive leaves it in place and
  the loop runs forever: the model counts iterations, and \<open>None\<close> is a loop that has not
  ended within the count.
\<close>

fun fr_loop ::
  "nat \<Rightarrow> real list \<Rightarrow> interval list \<Rightarrow> (nat \<Rightarrow> nat) \<Rightarrow> (nat \<Rightarrow> nat) \<Rightarrow> fr_state
     \<Rightarrow> fr_state option" where
  "fr_loop 0 beats_in_gaps existing_effects uuid4 rnd st =
     (if fr_i st < length beats_in_gaps then None else Some st)"
| "fr_loop (Suc fuel) beats_in_gaps existing_effects uuid4 rnd st =
     (if fr_i st < length beats_in_gaps
      then fr_loop fuel beats_in_gaps existing_effects uuid4 rnd
             (fr_step beats_in_gaps existing_effects uuid4 rnd st)
      else Some st)"

definition fr_init :: fr_state where
  "fr_init = \<lparr>fr_i = 0, fr_new_effect_nodes = [], fr_effects_added = 0, fr_color_idx = 0,
              fr_draws = 0\<rparr>"

definition beats_in_gaps_of :: "real list \<Rightarrow> interval list \<Rightarrow> real list" where
  "beats_in_gaps_of drum_beats existing_effects =
     filter (\<lambda>beat_time. is_gap beat_time existing_effects (fl 0.3)) drum_beats"

definition schedule_beat_synced ::
  "nat \<Rightarrow> real list \<Rightarrow> interval list \<Rightarrow> (nat \<Rightarrow> nat) \<Rightarrow> (nat \<Rightarrow> nat) \<Rightarrow> node list option" where
  "schedule_beat_synced fuel drum_beats existing_effects uuid4 rnd =
     map_option fr_new_effect_nodes
       (fr_loop fuel (beats_in_gaps_of drum_beats existing_effects) existing_effects
          uuid4 rnd fr_init)"

section \<open>The end-beat search: what it returns\<close>

text \<open>A list of 21 beats, 0.025 s apart, used below.\<close>

definition beats21 :: "real list" where
  "beats21 = map fl
     [0, 0.025, 0.05, 0.075, 0.1, 0.125, 0.15, 0.175, 0.2, 0.225, 0.25, 0.275, 0.3,
      0.325, 0.35, 0.375, 0.4, 0.425, 0.45, 0.475, 0.5]"

lemma overlap_iff: "overlap t ex \<longleftrightarrow> (\<exists>(a, b) \<in> set ex. a \<le> t \<and> t \<le> b)"
  by (induction t ex rule: overlap.induct) auto

lemma is_gap_iff:
  "is_gap t ex thr \<longleftrightarrow> (\<forall>(a, b) \<in> set ex. \<not> (fsub a thr \<le> t \<and> t \<le> fadd b thr))"
  by (induction t ex thr rule: is_gap.induct) auto

lemma find_end_scan_SomeD:
  "find_end_scan beats ex t0 mn mx idxs = Some r \<Longrightarrow>
     \<exists>pre i post. idxs = pre @ i # post \<and> r = (i, beats ! i, fsub (beats ! i) (t0)) \<and>
        mn \<le> fsub (beats ! i) (t0) \<and> fsub (beats ! i) (t0) \<le> mx \<and> \<not> overlap (beats ! i) ex \<and>
        (\<forall>j \<in> set pre. fsub (beats ! j) (t0) < mn \<or>
                        (fsub (beats ! j) (t0) \<le> mx \<and> overlap (beats ! j) ex))"
proof (induction idxs)
  case Nil
  then show ?case by simp
next
  case (Cons k idxs)
  let ?d = "fsub (beats ! k) (t0)"
  let ?pass = "\<lambda>j. fsub (beats ! j) (t0) < mn \<or> (fsub (beats ! j) (t0) \<le> mx \<and> overlap (beats ! j) ex)"
  show ?case
  proof (cases "?pass k")
    case True
    with Cons.prems have "find_end_scan beats ex t0 mn mx idxs = Some r"
      by (auto simp: Let_def split: if_splits)
    from Cons.IH [OF this] obtain pre i post where
      h: "idxs = pre @ i # post" "r = (i, beats ! i, fsub (beats ! i) (t0))"
         "mn \<le> fsub (beats ! i) (t0)" "fsub (beats ! i) (t0) \<le> mx" "\<not> overlap (beats ! i) ex"
         "\<forall>j \<in> set pre. ?pass j"
      by blast
    from h True have "k # idxs = (k # pre) @ i # post \<and> r = (i, beats ! i, fsub (beats ! i) (t0)) \<and>
        mn \<le> fsub (beats ! i) (t0) \<and> fsub (beats ! i) (t0) \<le> mx \<and> \<not> overlap (beats ! i) ex \<and>
        (\<forall>j \<in> set (k # pre). ?pass j)"
      by simp
    then show ?thesis by blast
  next
    case False
    with Cons.prems have "k # idxs = [] @ k # idxs \<and> r = (k, beats ! k, fsub (beats ! k) (t0)) \<and>
        mn \<le> fsub (beats ! k) (t0) \<and> fsub (beats ! k) (t0) \<le> mx \<and> \<not> overlap (beats ! k) ex \<and>
        (\<forall>j \<in> set []. ?pass j)"
      by (auto simp: Let_def split: if_splits)
    then show ?thesis by blast
  qed
qed

lemma find_end_scan_SomeI:
  "mn \<le> fsub (beats ! i) (t0) \<Longrightarrow> fsub (beats ! i) (t0) \<le> mx \<Longrightarrow> \<not> overlap (beats ! i) ex \<Longrightarrow>
   \<forall>j \<in> set pre. fsub (beats ! j) (t0) < mn \<or> (fsub (beats ! j) (t0) \<le> mx \<and> overlap (beats ! j) ex) \<Longrightarrow>
   find_end_scan beats ex t0 mn mx (pre @ i # post) = Some (i, beats ! i, fsub (beats ! i) (t0))"
  by (induction pre) (auto simp: Let_def)

lemma upt_split:
  "[a ..< b] = pre @ i # post \<Longrightarrow> a \<le> i \<and> i < b \<and> pre = [a ..< i]"
proof (induction pre arbitrary: a)
  case Nil
  then show ?case by (auto simp: upt_eq_Cons_conv)
next
  case (Cons x pre)
  from Cons.prems have "a < b" "x = a" "[Suc a ..< b] = pre @ i # post"
    by (auto simp: upt_eq_Cons_conv)
  with Cons.IH [of "Suc a"] show ?case
    by (auto simp: upt_conv_Cons)
qed

lemma upt_split_ex:
  assumes "a \<le> i" "i < b"
  shows "[a ..< b] = [a ..< i] @ i # [Suc i ..< b]"
proof -
  have "[a ..< b] = [a ..< i] @ [i ..< b]"
    using assms by (metis le_Suc_ex less_imp_le_nat upt_add_eq_append)
  also have "[i ..< b] = i # [Suc i ..< b]"
    using assms by (simp add: upt_conv_Cons)
  finally show ?thesis .
qed

lemma find_end_beat_Some_iff:
  "find_end_beat s beats ex mn mx = Some (i, t, d) \<longleftrightarrow>
     (s < i \<and> i < s + 20 \<and> i < length beats \<and> t = beats ! i \<and> d = fsub (beats ! i) (beats ! s) \<and>
      mn \<le> d \<and> d \<le> mx \<and> \<not> overlap t ex \<and>
      (\<forall>j. s < j \<and> j < i \<longrightarrow>
         fsub (beats ! j) (beats ! s) < mn \<or> (fsub (beats ! j) (beats ! s) \<le> mx \<and> overlap (beats ! j) ex)))"
  (is "?L \<longleftrightarrow> ?R")
proof
  assume ?L
  from find_end_scan_SomeD [OF this [unfolded find_end_beat_def]]
  obtain pre k post where
    h: "[s + 1 ..< min (s + 20) (length beats)] = pre @ k # post"
       "(i, t, d) = (k, beats ! k, fsub (beats ! k) (beats ! s))"
       "mn \<le> fsub (beats ! k) (beats ! s)" "fsub (beats ! k) (beats ! s) \<le> mx" "\<not> overlap (beats ! k) ex"
       "\<forall>j \<in> set pre. fsub (beats ! j) (beats ! s) < mn \<or>
                       (fsub (beats ! j) (beats ! s) \<le> mx \<and> overlap (beats ! j) ex)"
    by blast
  from upt_split [OF h(1)] have "s + 1 \<le> k" "k < min (s + 20) (length beats)"
    "pre = [s + 1 ..< k]" by auto
  with h show ?R by auto
next
  assume r: ?R
  then have "[s + 1 ..< min (s + 20) (length beats)]
              = [s + 1 ..< i] @ i # [Suc i ..< min (s + 20) (length beats)]"
    by (intro upt_split_ex) auto
  moreover have "find_end_scan beats ex (beats ! s) mn mx
      ([s + 1 ..< i] @ i # [Suc i ..< min (s + 20) (length beats)])
        = Some (i, beats ! i, fsub (beats ! i) (beats ! s))"
    using r by (intro find_end_scan_SomeI) auto
  ultimately show ?L using r by (simp add: find_end_beat_def)
qed

lemma find_end_beat_None_iff:
  "find_end_beat s beats ex mn mx = None \<longleftrightarrow>
     \<not> (\<exists>i. s < i \<and> i < s + 20 \<and> i < length beats \<and>
            mn \<le> fsub (beats ! i) (beats ! s) \<and> fsub (beats ! i) (beats ! s) \<le> mx \<and>
            \<not> overlap (beats ! i) ex \<and>
            (\<forall>j. s < j \<and> j < i \<longrightarrow>
               fsub (beats ! j) (beats ! s) < mn \<or>
               (fsub (beats ! j) (beats ! s) \<le> mx \<and> overlap (beats ! j) ex)))"
  (is "?N \<longleftrightarrow> \<not> ?E")
proof
  assume n: ?N
  show "\<not> ?E"
  proof
    assume ?E
    then obtain k where k: "s < k \<and> k < s + 20 \<and> k < length beats \<and>
            mn \<le> fsub (beats ! k) (beats ! s) \<and> fsub (beats ! k) (beats ! s) \<le> mx \<and>
            \<not> overlap (beats ! k) ex \<and>
            (\<forall>j. s < j \<and> j < k \<longrightarrow>
               fsub (beats ! j) (beats ! s) < mn \<or>
               (fsub (beats ! j) (beats ! s) \<le> mx \<and> overlap (beats ! j) ex))" ..
    have "find_end_beat s beats ex mn mx = Some (k, beats ! k, fsub (beats ! k) (beats ! s))"
      by (subst find_end_beat_Some_iff) (use k in simp)
    with n show False by simp
  qed
next
  assume ne: "\<not> ?E"
  show ?N
  proof (rule ccontr)
    assume "find_end_beat s beats ex mn mx \<noteq> None"
    then obtain k t' d' where "find_end_beat s beats ex mn mx = Some (k, t', d')"
      by (cases "find_end_beat s beats ex mn mx") auto
    then have "s < k \<and> k < s + 20 \<and> k < length beats \<and>
            mn \<le> fsub (beats ! k) (beats ! s) \<and> fsub (beats ! k) (beats ! s) \<le> mx \<and>
            \<not> overlap (beats ! k) ex \<and>
            (\<forall>j. s < j \<and> j < k \<longrightarrow>
               fsub (beats ! j) (beats ! s) < mn \<or>
               (fsub (beats ! j) (beats ! s) \<le> mx \<and> overlap (beats ! j) ex))"
      unfolding find_end_beat_Some_iff by (elim conjE) simp
    then have ?E ..
    with ne show False ..
  qed
qed

text \<open>
  Claim C2, as the code has it. \<open>find_end_beat\<close> returns the first beat after the start
  beat, among the indices \<open>start + 1\<close> to \<open>start + 19\<close> that exist, whose distance to the
  start beat is within \<open>[min, max]\<close> and which lies in no existing interval (boundaries
  included, no margin), provided every earlier candidate was either too close (skipped)
  or within the maximum and inside an existing interval (rejected); a candidate beyond
  the maximum ends the search. It returns nothing exactly when no such beat exists. The
  window is 20 beats counting the start beat, so 19 candidates. The waveform variant is
  the same search with the range of the beat's kind.
\<close>

theorem find_end_beat_spec:
  "(find_end_beat s beats ex mn mx = Some (i, t, d) \<longleftrightarrow>
      (s < i \<and> i < s + 20 \<and> i < length beats \<and> t = beats ! i \<and> d = fsub (beats ! i) (beats ! s) \<and>
       mn \<le> d \<and> d \<le> mx \<and> \<not> overlap t ex \<and>
       (\<forall>j. s < j \<and> j < i \<longrightarrow>
          fsub (beats ! j) (beats ! s) < mn \<or>
          (fsub (beats ! j) (beats ! s) \<le> mx \<and> overlap (beats ! j) ex)))) \<and>
   (find_end_beat s beats ex mn mx = None \<longleftrightarrow>
      \<not> (\<exists>i. s < i \<and> i < s + 20 \<and> i < length beats \<and>
             mn \<le> fsub (beats ! i) (beats ! s) \<and> fsub (beats ! i) (beats ! s) \<le> mx \<and>
             \<not> overlap (beats ! i) ex \<and>
             (\<forall>j. s < j \<and> j < i \<longrightarrow>
                fsub (beats ! j) (beats ! s) < mn \<or>
                (fsub (beats ! j) (beats ! s) \<le> mx \<and> overlap (beats ! j) ex)))) \<and>
   (overlap t ex \<longleftrightarrow> (\<exists>(a, b) \<in> set ex. a \<le> t \<and> t \<le> b)) \<and>
   find_end_beat_wf s beats ex db sg mn mx =
     find_end_beat s beats ex (if db then 1 else if sg then fl 0.7 else mn)
       (min mx (if db then 8 else if sg then 4 else 2))"
proof (intro conjI)
  show "find_end_beat_wf s beats ex db sg mn mx =
     find_end_beat s beats ex (if db then 1 else if sg then fl 0.7 else mn)
       (min mx (if db then 8 else if sg then 4 else 2))"
    by (simp add: find_end_beat_wf_def find_end_beat_def)
qed (rule find_end_beat_Some_iff find_end_beat_None_iff overlap_iff)+

theorem find_end_beat_spec_witness:
  "find_end_beat 0 [0, fl 0.2, 1, 1.5] [(fl 0.9, fl 1.1)] 0.5 2 = Some (3, 1.5, 1.5) \<and>
   find_end_beat_wf 0 [0, fl 0.2, 1, 1.5] [(fl 0.9, fl 1.1)] False False 0.5 10
     = Some (3, 1.5, 1.5)"
proof -
  let ?bs = "[0, fl 0.2, 1, 1.5]"
  let ?ex = "[(fl 0.9, fl 1.1)]"
  have p1: "fsub (?bs ! 1) (?bs ! 0) < 0.5"
    by code_simp
  have p2: "fsub (?bs ! 2) (?bs ! 0) \<le> 2 \<and> overlap (?bs ! 2) ?ex"
    by code_simp
  have pass: "\<forall>j::nat. 0 < j \<and> j < 3 \<longrightarrow>
      fsub (?bs ! j) (?bs ! 0) < 0.5 \<or> (fsub (?bs ! j) (?bs ! 0) \<le> 2 \<and> overlap (?bs ! j) ?ex)"
  proof (intro allI impI)
    fix j :: nat
    assume "0 < j \<and> j < 3"
    then have "j = 1 \<or> j = 2" by arith
    with p1 p2 show "fsub (?bs ! j) (?bs ! 0) < 0.5 \<or>
        (fsub (?bs ! j) (?bs ! 0) \<le> 2 \<and> overlap (?bs ! j) ?ex)"
      by blast
  qed
  have acc: "(0::nat) < 3 \<and> (3::nat) < 0 + 20 \<and> 3 < length ?bs \<and> (1.5::real) = ?bs ! 3 \<and>
      (1.5::real) = fsub (?bs ! 3) (?bs ! 0) \<and> (0.5::real) \<le> 1.5 \<and> (1.5::real) \<le> 2 \<and>
      \<not> overlap 1.5 ?ex"
    by code_simp
  note spec = find_end_beat_spec [of 0 ?bs ?ex "0.5" 2 3 "1.5" "1.5" False False]
  from spec acc pass have a: "find_end_beat 0 ?bs ?ex 0.5 2 = Some (3, 1.5, 1.5)"
    by blast
  from find_end_beat_spec [of 0 ?bs ?ex "0.5" 10 3 "1.5" "1.5" False False]
  have "find_end_beat_wf 0 ?bs ?ex False False 0.5 10 = find_end_beat 0 ?bs ?ex 0.5 2"
    by simp
  with a show ?thesis by simp
qed

text \<open>
  Claim C2 as stated, with 20 beats of lookahead, fails: of 21 beats the last is 0.5 s
  after the first, within \<open>[0.5, 2]\<close> and free, all beats between are closer than 0.5 s,
  and the search from the first beat returns nothing, because index 20 is not visited.
\<close>

theorem find_end_beat_lookahead_counterexample:
  "find_end_beat 0 beats21 [] 0.5 2 = None \<and> length beats21 = 21 \<and>
   fsub (beats21 ! 20) (beats21 ! 0) = 0.5 \<and> \<not> overlap (beats21 ! 20) []"
  by code_simp

section \<open>The BeatNet loop: steps and invariants\<close>

lemma bn_loop_inv:
  assumes "\<And>s. I s \<Longrightarrow> bn_i s < length beats \<Longrightarrow> I (bn_step beats D u r s)"
  shows "I st \<Longrightarrow> I (bn_loop beats D u r st)"
proof (induction "length beats - bn_i st" arbitrary: st rule: less_induct)
  case less
  show ?case
  proof (cases "bn_i st < length beats")
    case True
    have "length beats - bn_i (bn_step beats D u r st) < length beats - bn_i st"
      using True bn_step_advances [of st beats D u r] by arith
    then have "I (bn_loop beats D u r (bn_step beats D u r st))"
      using assms [OF less.prems True] by (rule less.hyps)
    then show ?thesis using True by (subst bn_loop.simps) simp
  next
    case False
    then show ?thesis using less.prems by (subst bn_loop.simps) simp
  qed
qed

lemma bn_loop_iterations:
  "\<exists>n. n \<le> length beats - bn_i st \<and>
       bn_loop beats D u r st = ((bn_step beats D u r) ^^ n) st \<and>
       (\<forall>k<n. bn_i (((bn_step beats D u r) ^^ k) st) < length beats) \<and>
       \<not> bn_i (((bn_step beats D u r) ^^ n) st) < length beats"
proof (induction "length beats - bn_i st" arbitrary: st rule: less_induct)
  case less
  let ?f = "bn_step beats D u r"
  show ?case
  proof (cases "bn_i st < length beats")
    case True
    have adv: "bn_i st < bn_i (?f st)" by (rule bn_step_advances)
    with True have "length beats - bn_i (?f st) < length beats - bn_i st" by arith
    from less.hyps [OF this] obtain n where
      n: "n \<le> length beats - bn_i (?f st)"
         "bn_loop beats D u r (?f st) = (?f ^^ n) (?f st)"
         "\<forall>k<n. bn_i ((?f ^^ k) (?f st)) < length beats"
         "\<not> bn_i ((?f ^^ n) (?f st)) < length beats"
      by blast
    have 1: "Suc n \<le> length beats - bn_i st" using n(1) adv True by arith
    have 2: "bn_loop beats D u r st = (?f ^^ Suc n) st"
      using True n(2) by (subst bn_loop.simps) (simp add: funpow_swap1)
    have 3: "\<forall>k<Suc n. bn_i ((?f ^^ k) st) < length beats"
    proof (intro allI impI)
      fix k assume "k < Suc n"
      show "bn_i ((?f ^^ k) st) < length beats"
      proof (cases k)
        case 0
        with True show ?thesis by simp
      next
        case (Suc k')
        with \<open>k < Suc n\<close> n(3) show ?thesis by (simp add: funpow_swap1)
      qed
    qed
    have 4: "\<not> bn_i ((?f ^^ Suc n) st) < length beats"
      using n(4) by (simp add: funpow_swap1)
    from 1 2 3 4 show ?thesis by blast
  next
    case False
    then have "0 \<le> length beats - bn_i st \<and> bn_loop beats D u r st = (?f ^^ 0) st \<and>
       (\<forall>k<0. bn_i ((?f ^^ k) st) < length beats) \<and> \<not> bn_i ((?f ^^ 0) st) < length beats"
      by (subst bn_loop.simps) simp
    then show ?thesis by blast
  qed
qed

lemma bn_step_cases:
  obtains (skip) "bn_step beats D u r st = st\<lparr>bn_i := bn_i st + 1\<rparr>"
  | (place) j n where
      "is_gap (beats ! bn_i st) (bn_existing_effects st) (fl 0.3)"
      "find_end_beat (bn_i st) beats (bn_existing_effects st)
         (if beats ! bn_i st \<in> D then 2 else 0.5) (if beats ! bn_i st \<in> D then 10 else 2)
         = Some (j, beats ! j, fsub (beats ! j) (beats ! bn_i st))"
      "start_time n = beats ! bn_i st"
      "duration n = fsub (beats ! j) (beats ! bn_i st)"
      "effect_type n = choice (if beats ! bn_i st \<in> D then [Spiral, Butterfly, Twinkle, Wipe]
                               else [Pulse]) (r (bn_effects_added st))"
      "bn_step beats D u r st =
         st\<lparr>bn_i := j + 1,
            bn_existing_effects :=
              sort (bn_existing_effects st @ [(beats ! bn_i st, beats ! j)]),
            bn_new_effect_nodes := bn_new_effect_nodes st @ [n],
            bn_effects_added := bn_effects_added st + 1,
            bn_color_idx := bn_color_idx st + 1\<rparr>"
proof (cases "is_gap (beats ! bn_i st) (bn_existing_effects st) (fl 0.3)")
  case False
  then have "bn_step beats D u r st = st\<lparr>bn_i := bn_i st + 1\<rparr>"
    by (simp add: bn_step_def Let_def)
  then show ?thesis by (rule skip)
next
  case gap: True
  let ?mn = "if beats ! bn_i st \<in> D then 2 else 0.5 :: real"
  let ?mx = "if beats ! bn_i st \<in> D then 10 else 2 :: real"
  show ?thesis
  proof (cases "find_end_beat (bn_i st) beats (bn_existing_effects st) ?mn ?mx")
    case None
    with gap have "bn_step beats D u r st = st\<lparr>bn_i := bn_i st + 1\<rparr>"
      by (cases "beats ! bn_i st \<in> D") (simp_all add: bn_step_def Let_def)
    then show ?thesis by (rule skip)
  next
    case (Some res)
    obtain j t d where res: "res = (j, t, d)" by (cases res)
    from Some res have "t = beats ! j" "d = fsub (beats ! j) (beats ! bn_i st)"
      by (simp_all add: find_end_beat_Some_iff)
    with Some res have fe: "find_end_beat (bn_i st) beats (bn_existing_effects st) ?mn ?mx
         = Some (j, beats ! j, fsub (beats ! j) (beats ! bn_i st))" by simp
    let ?n = "\<lparr>start_time = beats ! bn_i st, duration = fsub (beats ! j) (beats ! bn_i st),
                effect_type = choice (if beats ! bn_i st \<in> D
                                      then [Spiral, Butterfly, Twinkle, Wipe] else [Pulse])
                                (r (bn_effects_added st)),
                color = COLORS ! (bn_color_idx st mod length COLORS),
                effect_id = u (bn_effects_added st)\<rparr>"
    have "bn_step beats D u r st =
         st\<lparr>bn_i := j + 1,
            bn_existing_effects :=
              sort (bn_existing_effects st @ [(beats ! bn_i st, beats ! j)]),
            bn_new_effect_nodes := bn_new_effect_nodes st @ [?n],
            bn_effects_added := bn_effects_added st + 1,
            bn_color_idx := bn_color_idx st + 1\<rparr>"
      using gap fe by (cases "beats ! bn_i st \<in> D") (simp_all add: bn_step_def Let_def)
    with gap fe show ?thesis by (intro place [of j ?n]) simp_all
  qed
qed

lemma is_gap_mono:
  "set ex' \<subseteq> set ex \<Longrightarrow> is_gap t ex thr \<Longrightarrow> is_gap t ex' thr"
  unfolding is_gap_iff by blast

lemma overlap_mono:
  "set ex' \<subseteq> set ex \<Longrightarrow> overlap t ex' \<Longrightarrow> overlap t ex"
  unfolding overlap_iff by blast

lemma find_end_beat_SomeD:
  assumes "find_end_beat s beats ex mn mx = Some (j, t, d)"
  shows "s < j" and "j < length beats" and "t = beats ! j" and "d = fsub (beats ! j) (beats ! s)"
    and "mn \<le> fsub (beats ! j) (beats ! s)" and "fsub (beats ! j) (beats ! s) \<le> mx"
    and "\<not> overlap (beats ! j) ex"
proof -
  have h: "s < j \<and> j < s + 20 \<and> j < length beats \<and> t = beats ! j \<and>
      d = fsub (beats ! j) (beats ! s) \<and> mn \<le> d \<and> d \<le> mx \<and> \<not> overlap t ex \<and>
      (\<forall>k. s < k \<and> k < j \<longrightarrow>
         fsub (beats ! k) (beats ! s) < mn \<or> (fsub (beats ! k) (beats ! s) \<le> mx \<and> overlap (beats ! k) ex))"
    using assms unfolding find_end_beat_Some_iff .
  from h show "s < j" by (elim conjE)
  from h show "j < length beats" by (elim conjE)
  from h show "t = beats ! j" by (elim conjE)
  from h show "d = fsub (beats ! j) (beats ! s)" by (elim conjE)
  from h show "mn \<le> fsub (beats ! j) (beats ! s)" by (elim conjE) simp
  from h show "fsub (beats ! j) (beats ! s) \<le> mx" by (elim conjE) simp
  from h show "\<not> overlap (beats ! j) ex" by (elim conjE) simp
qed

lemma choice_mem: "xs \<noteq> [] \<Longrightarrow> choice xs r \<in> set xs"
  by (simp add: choice_def)

text \<open>
  What holds of a new effect of the BeatNet loop once the cursor is at \<open>c\<close>: it runs
  from a beat to a later beat that the cursor has passed, starts in a gap of the loaded
  effects and ends outside them, and has the duration range and type of its kind of
  beat.
\<close>

definition bn_node_ok :: "real list \<Rightarrow> real set \<Rightarrow> interval list \<Rightarrow> nat \<Rightarrow> node \<Rightarrow> bool" where
  "bn_node_ok beats D ex0 c n \<longleftrightarrow>
     (\<exists>a b. a < b \<and> b < c \<and> b < length beats \<and>
        start_time n = beats ! a \<and> duration n = fsub (beats ! b) (beats ! a) \<and>
        is_gap (beats ! a) ex0 (fl 0.3) \<and> \<not> overlap (beats ! b) ex0 \<and>
        (if beats ! a \<in> D
         then 2 \<le> duration n \<and> duration n \<le> 10 \<and>
              effect_type n \<in> {Spiral, Butterfly, Twinkle, Wipe}
         else 0.5 \<le> duration n \<and> duration n \<le> 2 \<and> effect_type n = Pulse))"

lemma bn_node_ok_mono:
  assumes "bn_node_ok beats D ex0 c n" and "c \<le> c'"
  shows "bn_node_ok beats D ex0 c' n"
proof -
  from assms(1) obtain a b where ab: "a < b" "b < c" "b < length beats"
        "start_time n = beats ! a" "duration n = fsub (beats ! b) (beats ! a)"
        "is_gap (beats ! a) ex0 (fl 0.3)" "\<not> overlap (beats ! b) ex0"
        "if beats ! a \<in> D
         then 2 \<le> duration n \<and> duration n \<le> 10 \<and>
              effect_type n \<in> {Spiral, Butterfly, Twinkle, Wipe}
         else 0.5 \<le> duration n \<and> duration n \<le> 2 \<and> effect_type n = Pulse"
    unfolding bn_node_ok_def by blast
  from ab(2) assms(2) have "b < c'" by simp
  with ab show ?thesis unfolding bn_node_ok_def by blast
qed

text \<open>
  The invariant of the BeatNet loop: the loaded intervals stay among the occupied ones,
  and every new effect is as above.
\<close>

definition bn_inv :: "real list \<Rightarrow> real set \<Rightarrow> interval list \<Rightarrow> bn_state \<Rightarrow> bool" where
  "bn_inv beats D ex0 st \<longleftrightarrow>
     set ex0 \<subseteq> set (bn_existing_effects st) \<and>
     (\<forall>n \<in> set (bn_new_effect_nodes st). bn_node_ok beats D ex0 (bn_i st) n)"

lemma bn_inv_init: "bn_inv beats D ex0 (bn_init ex0)"
  by (simp add: bn_inv_def bn_init_def)

lemma bn_inv_step:
  assumes inv: "bn_inv beats D ex0 st"
  shows "bn_inv beats D ex0 (bn_step beats D u r st)"
proof -
  from inv have inv1: "set ex0 \<subseteq> set (bn_existing_effects st)"
    and inv2: "\<forall>n \<in> set (bn_new_effect_nodes st). bn_node_ok beats D ex0 (bn_i st) n"
    unfolding bn_inv_def by (rule conjunct1, rule conjunct2)
  show ?thesis
  proof (cases rule: bn_step_cases [of beats D u r st])
    case skip
    have "\<forall>n \<in> set (bn_new_effect_nodes st). bn_node_ok beats D ex0 (bn_i st + 1) n"
    proof
      fix n assume "n \<in> set (bn_new_effect_nodes st)"
      with inv2 have "bn_node_ok beats D ex0 (bn_i st) n" by (rule bspec)
      then show "bn_node_ok beats D ex0 (bn_i st + 1) n"
        by (rule bn_node_ok_mono) simp
    qed
    with inv1 show ?thesis unfolding bn_inv_def skip by simp
  next
    case (place j n)
    let ?i = "bn_i st"
    note sub = inv1
    from place(2) have fe: "?i < j" "j < length beats"
      "(if beats ! ?i \<in> D then 2 else 0.5) \<le> fsub (beats ! j) (beats ! ?i)"
      "fsub (beats ! j) (beats ! ?i) \<le> (if beats ! ?i \<in> D then 10 else 2)"
      "\<not> overlap (beats ! j) (bn_existing_effects st)"
      by (rule find_end_beat_SomeD)+
    have gap0: "is_gap (beats ! ?i) ex0 (fl 0.3)"
      using sub place(1) by (rule is_gap_mono)
    have ov0: "\<not> overlap (beats ! j) ex0"
    proof
      assume "overlap (beats ! j) ex0"
      with sub have "overlap (beats ! j) (bn_existing_effects st)" by (rule overlap_mono)
      with fe(5) show False ..
    qed
    have kind: "if beats ! ?i \<in> D
             then 2 \<le> duration n \<and> duration n \<le> 10 \<and>
                  effect_type n \<in> {Spiral, Butterfly, Twinkle, Wipe}
             else 0.5 \<le> duration n \<and> duration n \<le> 2 \<and> effect_type n = Pulse"
    proof (cases "beats ! ?i \<in> D")
      case True
      have "choice [Spiral, Butterfly, Twinkle, Wipe] (r (bn_effects_added st))
              \<in> set [Spiral, Butterfly, Twinkle, Wipe]"
        by (rule choice_mem) simp
      with True fe(3,4) place(4,5) show ?thesis by simp
    next
      case False
      with fe(3,4) place(4,5) show ?thesis by (simp add: choice_def)
    qed
    have new: "bn_node_ok beats D ex0 (j + 1) n"
    proof -
      have "?i < j \<and> j < j + 1 \<and> j < length beats \<and>
            start_time n = beats ! ?i \<and> duration n = fsub (beats ! j) (beats ! ?i) \<and>
            is_gap (beats ! ?i) ex0 (fl 0.3) \<and> \<not> overlap (beats ! j) ex0 \<and>
            (if beats ! ?i \<in> D
             then 2 \<le> duration n \<and> duration n \<le> 10 \<and>
                  effect_type n \<in> {Spiral, Butterfly, Twinkle, Wipe}
             else 0.5 \<le> duration n \<and> duration n \<le> 2 \<and> effect_type n = Pulse)"
        using fe(1,2) place(3,4) gap0 ov0 kind by simp
      then show ?thesis unfolding bn_node_ok_def by (intro exI)
    qed
    have all: "\<forall>m \<in> set (bn_new_effect_nodes st @ [n]). bn_node_ok beats D ex0 (j + 1) m"
    proof
      fix m assume "m \<in> set (bn_new_effect_nodes st @ [n])"
      then consider "m \<in> set (bn_new_effect_nodes st)" | "m = n" by auto
      then show "bn_node_ok beats D ex0 (j + 1) m"
      proof cases
        case 1
        with inv2 have "bn_node_ok beats D ex0 ?i m" by (rule bspec)
        moreover from fe(1) have "?i \<le> j + 1" by simp
        ultimately show ?thesis by (rule bn_node_ok_mono)
      next
        case 2
        with new show ?thesis by simp
      qed
    qed
    have ex: "set ex0 \<subseteq> set (sort (bn_existing_effects st @ [(beats ! ?i, beats ! j)]))"
      using inv1 by auto
    show ?thesis
      unfolding bn_inv_def place(6) using ex all by simp
  qed
qed

lemma bn_inv_loop: "bn_inv beats D ex0 (bn_loop beats D u r (bn_init ex0))"
  by (rule bn_loop_inv [where I = "bn_inv beats D ex0"]) (simp_all add: bn_inv_step bn_inv_init)

section \<open>The waveform loop: steps and invariants\<close>

lemma wf_loop_inv:
  assumes "\<And>s. I s \<Longrightarrow> wf_beat_idx s < length beats \<Longrightarrow> I (wf_step beats D S ex r s)"
  shows "I st \<Longrightarrow> I (wf_loop beats D S ex r st)"
proof (induction "length beats - wf_beat_idx st" arbitrary: st rule: less_induct)
  case less
  show ?case
  proof (cases "wf_beat_idx st < length beats")
    case True
    have "length beats - wf_beat_idx (wf_step beats D S ex r st) < length beats - wf_beat_idx st"
      using True wf_step_advances [of st beats D S ex r] by arith
    then have "I (wf_loop beats D S ex r (wf_step beats D S ex r st))"
      using assms [OF less.prems True] by (rule less.hyps)
    then show ?thesis using True by (subst wf_loop.simps) simp
  next
    case False
    then show ?thesis using less.prems by (subst wf_loop.simps) simp
  qed
qed

lemma wf_loop_iterations:
  "\<exists>n. n \<le> length beats - wf_beat_idx st \<and>
       wf_loop beats D S ex r st = ((wf_step beats D S ex r) ^^ n) st \<and>
       (\<forall>k<n. wf_beat_idx (((wf_step beats D S ex r) ^^ k) st) < length beats) \<and>
       \<not> wf_beat_idx (((wf_step beats D S ex r) ^^ n) st) < length beats"
proof (induction "length beats - wf_beat_idx st" arbitrary: st rule: less_induct)
  case less
  let ?f = "wf_step beats D S ex r"
  show ?case
  proof (cases "wf_beat_idx st < length beats")
    case True
    have adv: "wf_beat_idx st < wf_beat_idx (?f st)" by (rule wf_step_advances)
    with True have "length beats - wf_beat_idx (?f st) < length beats - wf_beat_idx st"
      by arith
    from less.hyps [OF this] obtain n where
      n: "n \<le> length beats - wf_beat_idx (?f st)"
         "wf_loop beats D S ex r (?f st) = (?f ^^ n) (?f st)"
         "\<forall>k<n. wf_beat_idx ((?f ^^ k) (?f st)) < length beats"
         "\<not> wf_beat_idx ((?f ^^ n) (?f st)) < length beats"
      by blast
    have 1: "Suc n \<le> length beats - wf_beat_idx st" using n(1) adv True by arith
    have 2: "wf_loop beats D S ex r st = (?f ^^ Suc n) st"
      using True n(2) by (subst wf_loop.simps) (simp add: funpow_swap1)
    have 3: "\<forall>k<Suc n. wf_beat_idx ((?f ^^ k) st) < length beats"
    proof (intro allI impI)
      fix k assume "k < Suc n"
      show "wf_beat_idx ((?f ^^ k) st) < length beats"
      proof (cases k)
        case 0
        with True show ?thesis by simp
      next
        case (Suc k')
        with \<open>k < Suc n\<close> n(3) show ?thesis by (simp add: funpow_swap1)
      qed
    qed
    have 4: "\<not> wf_beat_idx ((?f ^^ Suc n) st) < length beats"
      using n(4) by (simp add: funpow_swap1)
    from 1 2 3 4 show ?thesis by blast
  next
    case False
    then have "0 \<le> length beats - wf_beat_idx st \<and>
       wf_loop beats D S ex r st = (?f ^^ 0) st \<and>
       (\<forall>k<0. wf_beat_idx ((?f ^^ k) st) < length beats) \<and>
       \<not> wf_beat_idx ((?f ^^ 0) st) < length beats"
      by (subst wf_loop.simps) simp
    then show ?thesis by blast
  qed
qed

lemma find_end_beat_wf_eq:
  "find_end_beat_wf s beats ex db sg mn mx =
     find_end_beat s beats ex (if db then 1 else if sg then fl 0.7 else mn)
       (min mx (if db then 8 else if sg then 4 else 2))"
  by (simp add: find_end_beat_wf_def find_end_beat_def)

text \<open>The type that the waveform loop gives an effect, by the kind of beat and the duration.\<close>

definition wf_type_ok :: "bool \<Rightarrow> bool \<Rightarrow> real \<Rightarrow> kind \<Rightarrow> bool" where
  "wf_type_ok db sg d k \<longleftrightarrow>
     (if db \<and> d \<ge> 4 then k \<in> {Spiral, Butterfly}
      else if db \<or> (sg \<and> d \<ge> 2) then k \<in> {Wipe, Twinkle, Butterfly}
      else if sg then k \<in> {Pulse, Twinkle}
      else k = Pulse)"

lemma wf_step_cases:
  obtains (skip) "wf_step beats D S ex r st = st\<lparr>wf_beat_idx := wf_beat_idx st + 1\<rparr>"
  | (place) j n k where
      "is_gap (beats ! wf_beat_idx st) ex (fl 0.3)"
      "find_end_beat (wf_beat_idx st) beats ex
         (if beats ! wf_beat_idx st \<in> D then 1 else if beats ! wf_beat_idx st \<in> S then fl 0.7 else 0.5)
         (if beats ! wf_beat_idx st \<in> D then 8 else if beats ! wf_beat_idx st \<in> S then 4 else 2)
         = Some (j, beats ! j, fsub (beats ! j) (beats ! wf_beat_idx st))"
      "start_time n = beats ! wf_beat_idx st"
      "duration n = fsub (beats ! j) (beats ! wf_beat_idx st)"
      "end_time n = beats ! j"
      "is_downbeat n = (beats ! wf_beat_idx st \<in> D)"
      "is_strong n = (beats ! wf_beat_idx st \<in> S)"
      "wf_type_ok (is_downbeat n) (is_strong n) (duration n) (effect_type n)"
      "wf_step beats D S ex r st =
         st\<lparr>wf_beat_idx := j + 1,
            wf_effects_to_add := wf_effects_to_add st @ [n],
            wf_draws := k\<rparr>"
proof (cases "is_gap (beats ! wf_beat_idx st) ex (fl 0.3)")
  case False
  then have "wf_step beats D S ex r st = st\<lparr>wf_beat_idx := wf_beat_idx st + 1\<rparr>"
    by (simp add: wf_step_def Let_def)
  then show ?thesis by (rule skip)
next
  case gap: True
  let ?i = "wf_beat_idx st"
  let ?db = "beats ! ?i \<in> D"
  let ?sg = "beats ! ?i \<in> S"
  let ?mn = "if ?db then 1 else if ?sg then fl 0.7 else 0.5 :: real"
  let ?mx = "if ?db then 8 else if ?sg then 4 else 2 :: real"
  have eq: "find_end_beat_wf ?i beats ex ?db ?sg 0.5 10 = find_end_beat ?i beats ex ?mn ?mx"
    by (simp add: find_end_beat_wf_eq)
  show ?thesis
  proof (cases "find_end_beat ?i beats ex ?mn ?mx")
    case None
    with gap eq have "wf_step beats D S ex r st = st\<lparr>wf_beat_idx := ?i + 1\<rparr>"
      by (simp add: wf_step_def Let_def)
    then show ?thesis by (rule skip)
  next
    case (Some res)
    obtain j t d where res: "res = (j, t, d)" by (cases res)
    from Some res have "t = beats ! j" "d = fsub (beats ! j) (beats ! ?i)"
      by (auto dest: find_end_beat_SomeD(3,4))
    with Some res have fe: "find_end_beat ?i beats ex ?mn ?mx
         = Some (j, beats ! j, fsub (beats ! j) (beats ! ?i))" by simp
    let ?d = "fsub (beats ! j) (beats ! ?i)"
    let ?tk = "if ?db \<and> ?d \<ge> 4.0
                 then (choice [Spiral, Butterfly] (r (wf_draws st)), wf_draws st + 1)
                 else if ?db \<or> (?sg \<and> ?d \<ge> 2.0)
                 then (choice [Wipe, Twinkle, Butterfly] (r (wf_draws st)), wf_draws st + 1)
                 else if ?sg
                 then (choice [Pulse, Pulse, Twinkle] (r (wf_draws st)), wf_draws st + 1)
                 else (Pulse, wf_draws st)"
    let ?n = "\<lparr>start_time = beats ! ?i, duration = ?d, effect_type = fst ?tk,
                color = choice COLORS (r (snd ?tk)), end_time = beats ! j,
                is_downbeat = ?db, is_strong = ?sg\<rparr>"
    have step: "wf_step beats D S ex r st =
         st\<lparr>wf_beat_idx := j + 1,
            wf_effects_to_add := wf_effects_to_add st @ [?n],
            wf_draws := snd ?tk + 1\<rparr>"
      using gap fe eq by (simp add: wf_step_def Let_def split_beta)
    have c1: "choice [Spiral, Butterfly] (r (wf_draws st)) \<in> {Spiral, Butterfly}"
      using choice_mem [of "[Spiral, Butterfly]" "r (wf_draws st)"] by simp
    have c2: "choice [Wipe, Twinkle, Butterfly] (r (wf_draws st)) \<in> {Wipe, Twinkle, Butterfly}"
      using choice_mem [of "[Wipe, Twinkle, Butterfly]" "r (wf_draws st)"] by simp
    have c3: "choice [Pulse, Pulse, Twinkle] (r (wf_draws st)) \<in> {Pulse, Twinkle}"
      using choice_mem [of "[Pulse, Pulse, Twinkle]" "r (wf_draws st)"] by simp
    have ty: "wf_type_ok ?db ?sg ?d (fst ?tk)"
      unfolding wf_type_ok_def using c1 c2 c3 by simp
    show ?thesis
      by (rule place [of j ?n "snd ?tk + 1"]) (use gap fe step ty in simp_all)
  qed
qed

text \<open>
  What holds of a planned effect of the waveform loop once the cursor is at \<open>c\<close>: it
  runs from a beat to a later beat that the cursor has passed, records the kind of its
  start beat, starts in a gap of the existing effects and ends outside them, and has
  the duration range and a type of its kind of beat.
\<close>

definition wf_node_ok ::
  "real list \<Rightarrow> real set \<Rightarrow> real set \<Rightarrow> interval list \<Rightarrow> nat \<Rightarrow> planned \<Rightarrow> bool" where
  "wf_node_ok beats D S ex c n \<longleftrightarrow>
     (\<exists>a b. a < b \<and> b < c \<and> b < length beats \<and>
        start_time n = beats ! a \<and> end_time n = beats ! b \<and>
        duration n = fsub (beats ! b) (beats ! a) \<and>
        is_downbeat n = (beats ! a \<in> D) \<and> is_strong n = (beats ! a \<in> S) \<and>
        is_gap (beats ! a) ex (fl 0.3) \<and> \<not> overlap (beats ! b) ex \<and>
        (if is_downbeat n then 1 else if is_strong n then fl 0.7 else 0.5) \<le> duration n \<and>
        duration n \<le> (if is_downbeat n then 8 else if is_strong n then 4 else 2) \<and>
        wf_type_ok (is_downbeat n) (is_strong n) (duration n) (effect_type n))"

lemma wf_node_ok_mono:
  assumes "wf_node_ok beats D S ex c n" and "c \<le> c'"
  shows "wf_node_ok beats D S ex c' n"
proof -
  from assms(1) obtain a b where ab: "a < b" "b < c" "b < length beats"
        "start_time n = beats ! a" "end_time n = beats ! b"
        "duration n = fsub (beats ! b) (beats ! a)"
        "is_downbeat n = (beats ! a \<in> D)" "is_strong n = (beats ! a \<in> S)"
        "is_gap (beats ! a) ex (fl 0.3)" "\<not> overlap (beats ! b) ex"
        "(if is_downbeat n then 1 else if is_strong n then fl 0.7 else 0.5) \<le> duration n"
        "duration n \<le> (if is_downbeat n then 8 else if is_strong n then 4 else 2)"
        "wf_type_ok (is_downbeat n) (is_strong n) (duration n) (effect_type n)"
    unfolding wf_node_ok_def by blast
  from ab(2) assms(2) have "b < c'" by simp
  with ab show ?thesis unfolding wf_node_ok_def by blast
qed

definition wf_inv ::
  "real list \<Rightarrow> real set \<Rightarrow> real set \<Rightarrow> interval list \<Rightarrow> wf_state \<Rightarrow> bool" where
  "wf_inv beats D S ex st \<longleftrightarrow>
     (\<forall>n \<in> set (wf_effects_to_add st). wf_node_ok beats D S ex (wf_beat_idx st) n)"

lemma wf_inv_init: "wf_inv beats D S ex wf_init"
  by (simp add: wf_inv_def wf_init_def)

lemma wf_inv_step:
  assumes inv: "wf_inv beats D S ex st"
  shows "wf_inv beats D S ex (wf_step beats D S ex r st)"
proof -
  from inv have inv2: "\<forall>n \<in> set (wf_effects_to_add st).
      wf_node_ok beats D S ex (wf_beat_idx st) n"
    unfolding wf_inv_def .
  show ?thesis
  proof (cases rule: wf_step_cases [of beats D S ex r st])
    case skip
    have "\<forall>n \<in> set (wf_effects_to_add st). wf_node_ok beats D S ex (wf_beat_idx st + 1) n"
    proof
      fix n assume "n \<in> set (wf_effects_to_add st)"
      with inv2 have "wf_node_ok beats D S ex (wf_beat_idx st) n" by (rule bspec)
      then show "wf_node_ok beats D S ex (wf_beat_idx st + 1) n"
        by (rule wf_node_ok_mono) simp
    qed
    then show ?thesis unfolding wf_inv_def skip by simp
  next
    case (place j n k)
    let ?i = "wf_beat_idx st"
    from place(2) have fe: "?i < j" "j < length beats"
      "(if beats ! ?i \<in> D then 1 else if beats ! ?i \<in> S then fl 0.7 else 0.5)
         \<le> fsub (beats ! j) (beats ! ?i)"
      "fsub (beats ! j) (beats ! ?i)
         \<le> (if beats ! ?i \<in> D then 8 else if beats ! ?i \<in> S then 4 else 2)"
      "\<not> overlap (beats ! j) ex"
      by (rule find_end_beat_SomeD)+
    have new: "wf_node_ok beats D S ex (j + 1) n"
    proof -
      have "?i < j \<and> j < j + 1 \<and> j < length beats \<and>
        start_time n = beats ! ?i \<and> end_time n = beats ! j \<and>
        duration n = fsub (beats ! j) (beats ! ?i) \<and>
        is_downbeat n = (beats ! ?i \<in> D) \<and> is_strong n = (beats ! ?i \<in> S) \<and>
        is_gap (beats ! ?i) ex (fl 0.3) \<and> \<not> overlap (beats ! j) ex \<and>
        (if is_downbeat n then 1 else if is_strong n then fl 0.7 else 0.5) \<le> duration n \<and>
        duration n \<le> (if is_downbeat n then 8 else if is_strong n then 4 else 2) \<and>
        wf_type_ok (is_downbeat n) (is_strong n) (duration n) (effect_type n)"
        using fe place(1,3,4,5,6,7,8)
        by (cases "beats ! ?i \<in> D"; cases "beats ! ?i \<in> S") simp_all
      then show ?thesis unfolding wf_node_ok_def by (intro exI)
    qed
    have all: "\<forall>m \<in> set (wf_effects_to_add st @ [n]). wf_node_ok beats D S ex (j + 1) m"
    proof
      fix m assume "m \<in> set (wf_effects_to_add st @ [n])"
      then consider "m \<in> set (wf_effects_to_add st)" | "m = n" by auto
      then show "wf_node_ok beats D S ex (j + 1) m"
      proof cases
        case 1
        with inv2 have "wf_node_ok beats D S ex ?i m" by (rule bspec)
        moreover from fe(1) have "?i \<le> j + 1" by simp
        ultimately show ?thesis by (rule wf_node_ok_mono)
      next
        case 2
        with new show ?thesis by simp
      qed
    qed
    show ?thesis
      unfolding wf_inv_def place(9) using all by simp
  qed
qed

lemma wf_inv_loop: "wf_inv beats D S ex (wf_loop beats D S ex r wf_init)"
  by (rule wf_loop_inv [where I = "wf_inv beats D S ex"]) (simp_all add: wf_inv_step wf_inv_init)

section \<open>Properties of the beat-quantized schedulers\<close>




text \<open>
  Claim C8. Every turn of the loop body moves the cursor forward, in the BeatNet and in
  the waveform scheduler, and the whole pass is the body run \<open>n\<close> times for some \<open>n\<close>
  that is at most the number of beats: the loop condition holds before each of these
  turns and fails after the last.
\<close>

theorem cursor_progress:
  "bn_i st < bn_i (bn_step beats D u r st) \<and>
   wf_beat_idx wst < wf_beat_idx (wf_step beats D S ex r wst) \<and>
   (\<exists>n. n \<le> length beats \<and>
      bn_loop beats D u r (bn_init ex) = ((bn_step beats D u r) ^^ n) (bn_init ex) \<and>
      (\<forall>k<n. bn_i (((bn_step beats D u r) ^^ k) (bn_init ex)) < length beats) \<and>
      \<not> bn_i (((bn_step beats D u r) ^^ n) (bn_init ex)) < length beats) \<and>
   (\<exists>n. n \<le> length beats \<and>
      wf_loop beats D S ex r wf_init = ((wf_step beats D S ex r) ^^ n) wf_init \<and>
      (\<forall>k<n. wf_beat_idx (((wf_step beats D S ex r) ^^ k) wf_init) < length beats) \<and>
      \<not> wf_beat_idx (((wf_step beats D S ex r) ^^ n) wf_init) < length beats)"
proof (intro conjI)
  show "bn_i st < bn_i (bn_step beats D u r st)" by (rule bn_step_advances)
  show "wf_beat_idx wst < wf_beat_idx (wf_step beats D S ex r wst)" by (rule wf_step_advances)
  from bn_loop_iterations [of beats "bn_init ex" D u r]
  show "\<exists>n. n \<le> length beats \<and>
      bn_loop beats D u r (bn_init ex) = ((bn_step beats D u r) ^^ n) (bn_init ex) \<and>
      (\<forall>k<n. bn_i (((bn_step beats D u r) ^^ k) (bn_init ex)) < length beats) \<and>
      \<not> bn_i (((bn_step beats D u r) ^^ n) (bn_init ex)) < length beats"
    by (simp add: bn_init_def)
  from wf_loop_iterations [of beats wf_init D S ex r]
  show "\<exists>n. n \<le> length beats \<and>
      wf_loop beats D S ex r wf_init = ((wf_step beats D S ex r) ^^ n) wf_init \<and>
      (\<forall>k<n. wf_beat_idx (((wf_step beats D S ex r) ^^ k) wf_init) < length beats) \<and>
      \<not> wf_beat_idx (((wf_step beats D S ex r) ^^ n) wf_init) < length beats"
    by (simp add: wf_init_def)
qed

theorem cursor_progress_witness:
  "bn_i (bn_init []) < bn_i (bn_step [3, 1, 2] {} (\<lambda>n. n) (\<lambda>n. 0) (bn_init [])) \<and>
   bn_i (bn_step [3, 1, 2] {} (\<lambda>n. n) (\<lambda>n. 0) (bn_init [])) = 1 \<and>
   bn_i (bn_loop [3, 1, 2] {} (\<lambda>n. n) (\<lambda>n. 0) (bn_init [])) = 3 \<and>
   (\<exists>n. n \<le> length [3, 1, 2::real] \<and>
      bn_loop [3, 1, 2] {} (\<lambda>n. n) (\<lambda>n. 0) (bn_init []) =
        ((bn_step [3, 1, 2] {} (\<lambda>n. n) (\<lambda>n. 0)) ^^ n) (bn_init []))"
proof -
  have a: "bn_i (bn_step [3, 1, 2] {} (\<lambda>n. n) (\<lambda>n. 0) (bn_init [])) = 1"
    by code_simp
  have b: "bn_i (bn_loop [3, 1, 2] {} (\<lambda>n. n) (\<lambda>n. 0) (bn_init [])) = 3"
    by code_simp
  from cursor_progress [where st = "bn_init []" and beats = "[3, 1, 2]" and D = "{}"
      and u = "\<lambda>n. n" and r = "\<lambda>n. 0" and ex = "[]"]
  have c: "bn_i (bn_init []) < bn_i (bn_step [3, 1, 2] {} (\<lambda>n. n) (\<lambda>n. 0) (bn_init []))"
    and d: "\<exists>n. n \<le> length [3, 1, 2::real] \<and>
      bn_loop [3, 1, 2] {} (\<lambda>n. n) (\<lambda>n. 0) (bn_init []) =
        ((bn_step [3, 1, 2] {} (\<lambda>n. n) (\<lambda>n. 0)) ^^ n) (bn_init [])"
    by blast+
  from a b c d show ?thesis by (intro conjI)
qed

text \<open>
  Claim C3. Every effect that the waveform scheduler plans records the kind of its start
  beat, and its duration and type fit that kind: a downbeat gives 1 to 8 seconds and one
  of Spiral, Butterfly, Twinkle, Wipe; a strong beat that is no downbeat gives 0.7 to 4
  seconds and one of Pulse, Twinkle, Wipe, Butterfly; any other beat gives 0.5 to 2
  seconds and a Pulse; and a Pulse never lasts more than 2 seconds. The BeatNet scheduler
  has two kinds: a downbeat gives 2 to 10 seconds and one of the four long types, any
  other beat 0.5 to 2 seconds and a Pulse. The bounds are the floats of the code: all
  but 0.7 are the numbers themselves, and the float 0.7 lies between 0.5 and 0.7.
\<close>

theorem duration_window:
  "(\<forall>n \<in> set (schedule_waveform beats D S ex r).
      is_downbeat n = (start_time n \<in> D) \<and> is_strong n = (start_time n \<in> S) \<and>
      (is_downbeat n \<longrightarrow>
         1 \<le> duration n \<and> duration n \<le> 8 \<and>
         effect_type n \<in> {Spiral, Butterfly, Twinkle, Wipe}) \<and>
      (\<not> is_downbeat n \<and> is_strong n \<longrightarrow>
         fl 0.7 \<le> duration n \<and> duration n \<le> 4 \<and>
         effect_type n \<in> {Pulse, Twinkle, Wipe, Butterfly}) \<and>
      (\<not> is_downbeat n \<and> \<not> is_strong n \<longrightarrow>
         0.5 \<le> duration n \<and> duration n \<le> 2 \<and> effect_type n = Pulse) \<and>
      (effect_type n = Pulse \<longrightarrow> duration n \<le> 2)) \<and>
   (\<forall>n \<in> set (schedule_beatnet beats D ex u r).
      (start_time n \<in> D \<longrightarrow>
         2 \<le> duration n \<and> duration n \<le> 10 \<and>
         effect_type n \<in> {Spiral, Butterfly, Twinkle, Wipe}) \<and>
      (start_time n \<notin> D \<longrightarrow>
         0.5 \<le> duration n \<and> duration n \<le> 2 \<and> effect_type n = Pulse)) \<and>
   0.5 \<le> fl 0.7 \<and> fl 0.7 \<le> 0.7"
proof (intro conjI ballI)
  show "0.5 \<le> fl 0.7" by code_simp
  show "fl 0.7 \<le> 0.7" by code_simp
next
  fix n assume "n \<in> set (schedule_waveform beats D S ex r)"
  with wf_inv_loop [of beats D S ex r]
  have "wf_node_ok beats D S ex (wf_beat_idx (wf_loop beats D S ex r wf_init)) n"
    unfolding wf_inv_def schedule_waveform_def by blast
  then obtain a b where ab: "start_time n = beats ! a"
      "is_downbeat n = (beats ! a \<in> D)" "is_strong n = (beats ! a \<in> S)"
      "(if is_downbeat n then 1 else if is_strong n then fl 0.7 else 0.5) \<le> duration n"
      "duration n \<le> (if is_downbeat n then 8 else if is_strong n then 4 else 2)"
      "wf_type_ok (is_downbeat n) (is_strong n) (duration n) (effect_type n)"
    unfolding wf_node_ok_def by blast
  from ab(1,2) show "is_downbeat n = (start_time n \<in> D)" by simp
  from ab(1,3) show "is_strong n = (start_time n \<in> S)" by simp
  from ab(4,5,6) show "is_downbeat n \<longrightarrow>
         1 \<le> duration n \<and> duration n \<le> 8 \<and>
         effect_type n \<in> {Spiral, Butterfly, Twinkle, Wipe}"
    by (auto simp: wf_type_ok_def split: if_splits)
  from ab(4,5,6) show "\<not> is_downbeat n \<and> is_strong n \<longrightarrow>
         fl 0.7 \<le> duration n \<and> duration n \<le> 4 \<and>
         effect_type n \<in> {Pulse, Twinkle, Wipe, Butterfly}"
    by (auto simp: wf_type_ok_def split: if_splits)
  from ab(4,5,6) show "\<not> is_downbeat n \<and> \<not> is_strong n \<longrightarrow>
         0.5 \<le> duration n \<and> duration n \<le> 2 \<and> effect_type n = Pulse"
    by (auto simp: wf_type_ok_def split: if_splits)
  from ab(4,5,6) show "effect_type n = Pulse \<longrightarrow> duration n \<le> 2"
    by (auto simp: wf_type_ok_def split: if_splits)
next
  fix n assume "n \<in> set (schedule_beatnet beats D ex u r)"
  with bn_inv_loop [of beats D ex u r]
  have "bn_node_ok beats D ex (bn_i (bn_loop beats D u r (bn_init ex))) n"
    unfolding bn_inv_def schedule_beatnet_def by blast
  then obtain a b where ab: "start_time n = beats ! a"
      "if beats ! a \<in> D
       then 2 \<le> duration n \<and> duration n \<le> 10 \<and>
            effect_type n \<in> {Spiral, Butterfly, Twinkle, Wipe}
       else 0.5 \<le> duration n \<and> duration n \<le> 2 \<and> effect_type n = Pulse"
    unfolding bn_node_ok_def by blast
  from ab show "start_time n \<in> D \<longrightarrow>
         2 \<le> duration n \<and> duration n \<le> 10 \<and>
         effect_type n \<in> {Spiral, Butterfly, Twinkle, Wipe}"
    by (simp split: if_splits)
  from ab show "start_time n \<notin> D \<longrightarrow>
         0.5 \<le> duration n \<and> duration n \<le> 2 \<and> effect_type n = Pulse"
    by (simp split: if_splits)
qed

theorem duration_window_witness:
  "schedule_waveform [0, 1, 2, 7] {2} {0} [] (\<lambda>n. 2) =
     [\<lparr>start_time = 0, duration = 1, effect_type = Twinkle, color = (35.76, 71.52, 11.92),
       end_time = 1, is_downbeat = False, is_strong = True\<rparr>,
      \<lparr>start_time = 2, duration = 5, effect_type = Spiral, color = (35.76, 71.52, 11.92),
       end_time = 7, is_downbeat = True, is_strong = False\<rparr>] \<and>
   fl 0.7 \<le> 1 \<and> (1::real) \<le> 4 \<and> Twinkle \<in> {Pulse, Twinkle, Wipe, Butterfly} \<and>
   (1::real) \<le> 5 \<and> (5::real) \<le> 8 \<and> Spiral \<in> {Spiral, Butterfly, Twinkle, Wipe}"
proof -
  have e: "schedule_waveform [0, 1, 2, 7] {2} {0} [] (\<lambda>n. 2) =
     [\<lparr>start_time = 0, duration = 1, effect_type = Twinkle, color = (35.76, 71.52, 11.92),
       end_time = 1, is_downbeat = False, is_strong = True\<rparr>,
      \<lparr>start_time = 2, duration = 5, effect_type = Spiral, color = (35.76, 71.52, 11.92),
       end_time = 7, is_downbeat = True, is_strong = False\<rparr>]"
    by code_simp
  from duration_window [where beats = "[0, 1, 2, 7]" and D = "{2}" and S = "{0}" and ex = "[]"
      and r = "\<lambda>n. 2"]
  have "\<forall>n \<in> set (schedule_waveform [0, 1, 2, 7] {2} {0} [] (\<lambda>n. 2)).
      (is_downbeat n \<longrightarrow>
         1 \<le> duration n \<and> duration n \<le> 8 \<and>
         effect_type n \<in> {Spiral, Butterfly, Twinkle, Wipe}) \<and>
      (\<not> is_downbeat n \<and> is_strong n \<longrightarrow>
         fl 0.7 \<le> duration n \<and> duration n \<le> 4 \<and>
         effect_type n \<in> {Pulse, Twinkle, Wipe, Butterfly})"
    by blast
  with e show ?thesis by simp
qed

section \<open>What the draws decide\<close>













section \<open>Where the cursor goes after a placement\<close>

lemma sorted_wrt_less_nth_iff:
  fixes xs :: "real list"
  assumes "sorted_wrt (<) xs" "j < length xs" "k < length xs"
  shows "xs ! j < xs ! k \<longleftrightarrow> j < k"
proof
  assume l: "xs ! j < xs ! k"
  show "j < k"
  proof (rule ccontr)
    assume "\<not> j < k"
    then consider "k = j" | "k < j" by arith
    then show False
    proof cases
      case 1
      with l show False by simp
    next
      case 2
      with assms have "xs ! k < xs ! j" by (simp add: sorted_wrt_nth_less)
      with l show False by simp
    qed
  qed
next
  assume "j < k"
  with assms show "xs ! j < xs ! k" by (simp add: sorted_wrt_nth_less)
qed

lemma fr_skip_spec:
  "i \<le> fr_skip bg lt i \<and> (i \<le> length bg \<longrightarrow> fr_skip bg lt i \<le> length bg) \<and>
   (\<forall>m. i \<le> m \<and> m < fr_skip bg lt i \<longrightarrow> bg ! m < lt) \<and>
   (fr_skip bg lt i < length bg \<longrightarrow> \<not> bg ! (fr_skip bg lt i) < lt)"
proof (induction bg lt i rule: fr_skip.induct)
  case (1 bg lt i)
  show ?case
  proof (cases "i < length bg \<and> bg ! i < lt")
    case True
    then have eq: "fr_skip bg lt i = fr_skip bg lt (i + 1)"
      by (subst fr_skip.simps) simp
    from 1 [OF True] have ih:
      "i + 1 \<le> fr_skip bg lt (i + 1)"
      "i + 1 \<le> length bg \<longrightarrow> fr_skip bg lt (i + 1) \<le> length bg"
      "\<forall>m. i + 1 \<le> m \<and> m < fr_skip bg lt (i + 1) \<longrightarrow> bg ! m < lt"
      "fr_skip bg lt (i + 1) < length bg \<longrightarrow> \<not> bg ! (fr_skip bg lt (i + 1)) < lt"
      by blast+
    have "\<forall>m. i \<le> m \<and> m < fr_skip bg lt (i + 1) \<longrightarrow> bg ! m < lt"
    proof (intro allI impI)
      fix m assume m: "i \<le> m \<and> m < fr_skip bg lt (i + 1)"
      show "bg ! m < lt"
      proof (cases "m = i")
        case True
        with \<open>i < length bg \<and> bg ! i < lt\<close> show ?thesis by simp
      next
        case False
        with m have "i + 1 \<le> m \<and> m < fr_skip bg lt (i + 1)" by arith
        with ih(3) show ?thesis by blast
      qed
    qed
    with ih True show ?thesis unfolding eq by simp
  next
    case False
    then have eq: "fr_skip bg lt i = i"
      by (subst fr_skip.simps) auto
    from False show ?thesis unfolding eq by auto
  qed
qed
text \<open>
  Claim C6 as stated fails in the free-running scheduler: its closing loop moves the
  cursor past the beats before the end of the new effect only. With the beats 0 and 8
  and nothing in the way, the first effect runs from 0 for 8 seconds, the cursor stops
  at the beat 8, which is not after the end, and that beat starts the next effect.
\<close>

theorem cursor_counterexample:
  "beats_in_gaps_of [0, 8] [] = [0, 8] \<and>
   fr_i (fr_step [0, 8] [] (\<lambda>n. n) (\<lambda>n. 0) fr_init) = 1 \<and>
   map (\<lambda>n. (start_time n, duration n))
     (fr_new_effect_nodes (fr_step [0, 8] [] (\<lambda>n. n) (\<lambda>n. 0) fr_init)) = [(0, 8)] \<and>
   [0, 8] ! 1 = fadd 0 8 \<and>
   map_option (map (\<lambda>n. (start_time n, duration n)))
     (schedule_beat_synced 2 [0, 8] [] (\<lambda>n. n) (\<lambda>n. 0)) = Some [(0, 8), (8, 8)]"
  by code_simp

text \<open>
  Claim C6, as the code has it. In the BeatNet and the waveform scheduler a placement
  moves the cursor to the index after the end beat; when the beats are strictly
  increasing, the beats from there on are exactly the beats after the end of the placed
  interval. In the free-running scheduler a turn of the loop moves the cursor to the
  first beat in a gap, from the current one on, that is not before start plus duration:
  the beats it passes are before that time, and a beat at that time is the next start.
\<close>

theorem cursor_after_placement:
  "(sorted_wrt (<) beats \<and>
    bn_new_effect_nodes (bn_step beats D u r st) \<noteq> bn_new_effect_nodes st \<longrightarrow>
      (\<exists>j. bn_i st < j \<and> j < length beats \<and>
         bn_existing_effects (bn_step beats D u r st) =
           sort (bn_existing_effects st @ [(beats ! bn_i st, beats ! j)]) \<and>
         bn_i (bn_step beats D u r st) = j + 1 \<and>
         (\<forall>k < length beats. beats ! j < beats ! k \<longleftrightarrow> j + 1 \<le> k))) \<and>
   (sorted_wrt (<) beats \<and>
    wf_effects_to_add (wf_step beats D S ex r wst) \<noteq> wf_effects_to_add wst \<longrightarrow>
      (\<exists>j. wf_beat_idx wst < j \<and> j < length beats \<and>
         end_time (last (wf_effects_to_add (wf_step beats D S ex r wst))) = beats ! j \<and>
         wf_beat_idx (wf_step beats D S ex r wst) = j + 1 \<and>
         (\<forall>k < length beats. beats ! j < beats ! k \<longleftrightarrow> j + 1 \<le> k))) \<and>
   (fr_i fs < length bg \<longrightarrow>
      (let st' = fr_step bg ex u r fs;
           n = last (fr_new_effect_nodes st');
           lt = fadd (start_time n) (duration n)
       in start_time n = bg ! fr_i fs \<and> fr_i fs \<le> fr_i st' \<and> fr_i st' \<le> length bg \<and>
          (\<forall>m. fr_i fs \<le> m \<and> m < fr_i st' \<longrightarrow> bg ! m < lt) \<and>
          (fr_i st' < length bg \<longrightarrow> lt \<le> bg ! fr_i st')))"
proof (intro conjI impI)
  assume a: "sorted_wrt (<) beats \<and>
    bn_new_effect_nodes (bn_step beats D u r st) \<noteq> bn_new_effect_nodes st"
  show "\<exists>j. bn_i st < j \<and> j < length beats \<and>
         bn_existing_effects (bn_step beats D u r st) =
           sort (bn_existing_effects st @ [(beats ! bn_i st, beats ! j)]) \<and>
         bn_i (bn_step beats D u r st) = j + 1 \<and>
         (\<forall>k < length beats. beats ! j < beats ! k \<longleftrightarrow> j + 1 \<le> k)"
  proof (cases rule: bn_step_cases [of beats D u r st])
    case skip
    with a show ?thesis by simp
  next
    case (place j n)
    from place(2) have fe: "bn_i st < j" "j < length beats"
      by (rule find_end_beat_SomeD)+
    have "\<forall>k < length beats. beats ! j < beats ! k \<longleftrightarrow> j + 1 \<le> k"
      using a fe(2) by (simp add: sorted_wrt_less_nth_iff Suc_le_eq)
    with fe place(6) have "bn_i st < j \<and> j < length beats \<and>
         bn_existing_effects (bn_step beats D u r st) =
           sort (bn_existing_effects st @ [(beats ! bn_i st, beats ! j)]) \<and>
         bn_i (bn_step beats D u r st) = j + 1 \<and>
         (\<forall>k < length beats. beats ! j < beats ! k \<longleftrightarrow> j + 1 \<le> k)"
      by simp
    then show ?thesis ..
  qed
next
  assume a: "sorted_wrt (<) beats \<and>
    wf_effects_to_add (wf_step beats D S ex r wst) \<noteq> wf_effects_to_add wst"
  show "\<exists>j. wf_beat_idx wst < j \<and> j < length beats \<and>
         end_time (last (wf_effects_to_add (wf_step beats D S ex r wst))) = beats ! j \<and>
         wf_beat_idx (wf_step beats D S ex r wst) = j + 1 \<and>
         (\<forall>k < length beats. beats ! j < beats ! k \<longleftrightarrow> j + 1 \<le> k)"
  proof (cases rule: wf_step_cases [of beats D S ex r wst])
    case skip
    with a show ?thesis by simp
  next
    case (place j n k)
    from place(2) have fe: "wf_beat_idx wst < j" "j < length beats"
      by (rule find_end_beat_SomeD)+
    have "\<forall>k < length beats. beats ! j < beats ! k \<longleftrightarrow> j + 1 \<le> k"
      using a fe(2) by (simp add: sorted_wrt_less_nth_iff Suc_le_eq)
    with fe place(5,9) have "wf_beat_idx wst < j \<and> j < length beats \<and>
         end_time (last (wf_effects_to_add (wf_step beats D S ex r wst))) = beats ! j \<and>
         wf_beat_idx (wf_step beats D S ex r wst) = j + 1 \<and>
         (\<forall>k < length beats. beats ! j < beats ! k \<longleftrightarrow> j + 1 \<le> k)"
      by simp
    then show ?thesis ..
  qed
next
  assume a: "fr_i fs < length bg"
  define st' where "st' = fr_step bg ex u r fs"
  define n where "n = last (fr_new_effect_nodes st')"
  define lt where "lt = fadd (start_time n) (duration n)"
  have s: "start_time n = bg ! fr_i fs"
    unfolding n_def st'_def by (simp add: fr_step_def Let_def split_beta)
  have i: "fr_i st' = fr_skip bg lt (fr_i fs)"
    unfolding lt_def n_def st'_def by (simp add: fr_step_def Let_def split_beta)
  from fr_skip_spec [of "fr_i fs" bg lt] a
  have "start_time n = bg ! fr_i fs \<and> fr_i fs \<le> fr_i st' \<and> fr_i st' \<le> length bg \<and>
          (\<forall>m. fr_i fs \<le> m \<and> m < fr_i st' \<longrightarrow> bg ! m < lt) \<and>
          (fr_i st' < length bg \<longrightarrow> lt \<le> bg ! fr_i st')"
    unfolding i using s by (simp add: not_less)
  then show "let st' = fr_step bg ex u r fs;
           n = last (fr_new_effect_nodes st');
           lt = fadd (start_time n) (duration n)
       in start_time n = bg ! fr_i fs \<and> fr_i fs \<le> fr_i st' \<and> fr_i st' \<le> length bg \<and>
          (\<forall>m. fr_i fs \<le> m \<and> m < fr_i st' \<longrightarrow> bg ! m < lt) \<and>
          (fr_i st' < length bg \<longrightarrow> lt \<le> bg ! fr_i st')"
    unfolding Let_def lt_def n_def st'_def .
qed
theorem cursor_after_placement_witness:
  "sorted_wrt (<) [0, 1, 2.5 :: real] \<and>
   bn_new_effect_nodes (bn_step [0, 1, 2.5] {} (\<lambda>n. n) (\<lambda>n. 0) (bn_init [])) \<noteq>
     bn_new_effect_nodes (bn_init []) \<and>
   bn_i (bn_step [0, 1, 2.5] {} (\<lambda>n. n) (\<lambda>n. 0) (bn_init [])) = 2 \<and>
   (\<exists>j. bn_i (bn_init []) < j \<and> j < length [0, 1, 2.5 :: real] \<and>
      bn_existing_effects (bn_step [0, 1, 2.5] {} (\<lambda>n. n) (\<lambda>n. 0) (bn_init [])) =
        sort (bn_existing_effects (bn_init []) @ [([0, 1, 2.5] ! bn_i (bn_init []), [0, 1, 2.5] ! j)]) \<and>
      bn_i (bn_step [0, 1, 2.5] {} (\<lambda>n. n) (\<lambda>n. 0) (bn_init [])) = j + 1 \<and>
      (\<forall>k < length [0, 1, 2.5 :: real]. [0, 1, 2.5 :: real] ! j < [0, 1, 2.5] ! k \<longleftrightarrow> j + 1 \<le> k))"
proof -
  have a: "sorted_wrt (<) [0, 1, 2.5 :: real]" by simp
  have b: "bn_new_effect_nodes (bn_step [0, 1, 2.5] {} (\<lambda>n. n) (\<lambda>n. 0) (bn_init [])) \<noteq>
     bn_new_effect_nodes (bn_init [])"
    by code_simp
  have c: "bn_i (bn_step [0, 1, 2.5] {} (\<lambda>n. n) (\<lambda>n. 0) (bn_init [])) = 2"
    by code_simp
  from cursor_after_placement [where beats = "[0, 1, 2.5]" and D = "{}" and u = "\<lambda>n. n"
      and r = "\<lambda>n. 0" and st = "bn_init []"] a b
  have "\<exists>j. bn_i (bn_init []) < j \<and> j < length [0, 1, 2.5 :: real] \<and>
      bn_existing_effects (bn_step [0, 1, 2.5] {} (\<lambda>n. n) (\<lambda>n. 0) (bn_init [])) =
        sort (bn_existing_effects (bn_init []) @ [([0, 1, 2.5] ! bn_i (bn_init []), [0, 1, 2.5] ! j)]) \<and>
      bn_i (bn_step [0, 1, 2.5] {} (\<lambda>n. n) (\<lambda>n. 0) (bn_init [])) = j + 1 \<and>
      (\<forall>k < length [0, 1, 2.5 :: real]. [0, 1, 2.5 :: real] ! j < [0, 1, 2.5] ! k \<longleftrightarrow> j + 1 \<le> k)"
    by blast
  with a b c show ?thesis by (intro conjI)
qed

section \<open>The free-running loop: steps and invariants\<close>









end
